theory Spec2Isabelle
  imports Main "HOL-Library.Sublist"
begin

section \<open>Import Mocha Track: the line-oriented setup patcher\<close>

text \<open>
  A shallow embedding of \<^verbatim>\<open>import_mocha_track.py\<close>.  A setup file is the list of its
  lines (what \<^verbatim>\<open>readlines()\<close> returns), a line is a \<^typ>\<open>string\<close>.  Every exception
  the Python can raise is a value of \<open>error\<close>; a method that can raise returns
  \<open>error + 'a\<close> with \<open>Inl\<close> for the exception.
\<close>

datatype error = ValueError | TypeError | IndexError | OverflowError | OSError

subsection \<open>Strings\<close>

text \<open>Python's \<^verbatim>\<open>item in line\<close> on strings: \<open>item\<close> occurs as a contiguous substring.\<close>

fun py_in :: "string \<Rightarrow> string \<Rightarrow> bool" where
  "py_in item [] = (item = [])"
| "py_in item (c # cs) = (prefix item (c # cs) \<or> py_in item cs)"

subsection \<open>\<^verbatim>\<open>find_line\<close> and \<^verbatim>\<open>find_line_after\<close>\<close>

text \<open>
  Both loops run over \<^verbatim>\<open>enumerate(setup)\<close>; \<open>num\<close> is the running index.  Falling off the
  end of the loop returns Python's \<^verbatim>\<open>None\<close>.
\<close>

fun find_line_from :: "nat \<Rightarrow> string \<Rightarrow> string list \<Rightarrow> nat option" where
  "find_line_from num item [] = None"
| "find_line_from num item (line # rest) =
     (if py_in item line then Some num else find_line_from (Suc num) item rest)"

definition find_line :: "string \<Rightarrow> string list \<Rightarrow> nat option" where
  "find_line item stp = find_line_from 0 item stp"

fun find_line_after_from :: "nat \<Rightarrow> string \<Rightarrow> int \<Rightarrow> string list \<Rightarrow> nat option" where
  "find_line_after_from num item item_line_num [] = None"
| "find_line_after_from num item item_line_num (line # rest) =
     (if int num > item_line_num \<and> py_in item line then Some num
      else find_line_after_from (Suc num) item item_line_num rest)"

definition find_line_after :: "string \<Rightarrow> int \<Rightarrow> string list \<Rightarrow> nat option" where
  "find_line_after item item_line_num stp = find_line_after_from 0 item item_line_num stp"

subsection \<open>Lines and numbers as text\<close>

text \<open>
  \<open>tabbed k s\<close> is the line \<open>s\<close> behind \<open>k\<close> tab characters, with its newline: the setup
  grammar's indentation.  \<open>str_int\<close> is Python's \<^verbatim>\<open>str\<close> on an \<^verbatim>\<open>int\<close>.
\<close>

abbreviation TAB :: char where "TAB \<equiv> CHR 0x09"
abbreviation NL :: char where "NL \<equiv> CHR 0x0A"

definition tabbed :: "nat \<Rightarrow> string \<Rightarrow> string" where
  "tabbed k s = replicate k TAB @ s @ [NL]"

definition digit_char :: "nat \<Rightarrow> char" where
  "digit_char d = ''0123456789'' ! d"

function str_nat :: "nat \<Rightarrow> string" where
  "str_nat n = (if n < 10 then [digit_char n] else str_nat (n div 10) @ [digit_char (n mod 10)])"
  by pat_completeness auto
termination
  by (relation "measure id") auto

declare str_nat.simps [simp del]






definition str_int :: "int \<Rightarrow> string" where
  "str_int i = (if i < 0 then CHR ''-'' # str_nat (nat (- i)) else str_nat (nat i))"

subsection \<open>Python lists\<close>

text \<open>
  \<^verbatim>\<open>xs[i]\<close> and \<^verbatim>\<open>xs[i] = v\<close>: a negative index counts from the end, an index out of
  range raises \<^verbatim>\<open>IndexError\<close>.
\<close>

definition py_position :: "nat \<Rightarrow> int \<Rightarrow> nat option" where
  "py_position len i =
     (if 0 \<le> i \<and> i < int len then Some (nat i)
      else if i < 0 \<and> - int len \<le> i then Some (nat (int len + i))
      else None)"

definition py_index :: "'a list \<Rightarrow> int \<Rightarrow> error + 'a" where
  "py_index xs i =
     (case py_position (length xs) i of None \<Rightarrow> Inl IndexError | Some j \<Rightarrow> Inr (xs ! j))"

definition py_store :: "'a list \<Rightarrow> int \<Rightarrow> 'a \<Rightarrow> error + 'a list" where
  "py_store xs i v =
     (case py_position (length xs) i of None \<Rightarrow> Inl IndexError | Some j \<Rightarrow> Inr (xs[j := v]))"

text \<open>
  \<^verbatim>\<open>xs.insert(i, v)\<close> for an index \<open>i \<ge> 0\<close>, the only kind the script passes: \<open>v\<close> goes
  before position \<open>i\<close>, and to the end of the list when \<open>i\<close> is past it.
\<close>

definition py_insert :: "nat \<Rightarrow> 'a \<Rightarrow> 'a list \<Rightarrow> 'a list" where
  "py_insert i v xs = take i xs @ v # drop i xs"

text \<open>\<^verbatim>\<open>for i, v in enumerate(vs, start): xs.insert(i, v)\<close>\<close>

fun insert_enumerated :: "nat \<Rightarrow> 'a list \<Rightarrow> 'a list \<Rightarrow> 'a list" where
  "insert_enumerated i [] xs = xs"
| "insert_enumerated i (v # vs) xs = insert_enumerated (Suc i) vs (py_insert i v xs)"

subsection \<open>\<^verbatim>\<open>key_frame\<close> and \<^verbatim>\<open>add_animation\<close>\<close>

text \<open>
  A keyframe value is a float in the corner channels and an int in the shape channel; the
  f-string formats either with \<^verbatim>\<open>str\<close>.  The value type is a parameter \<open>'a\<close> and its
  formatting the parameter \<open>fmt\<close>.
\<close>

definition key_frame ::
  "('a \<Rightarrow> string) \<Rightarrow> nat \<Rightarrow> int \<Rightarrow> 'a \<Rightarrow> bool \<Rightarrow> string \<Rightarrow> string list" where
  "key_frame fmt index frame val value_lock curve_order =
     (let kf_lines = [
        tabbed 3 (''Key '' @ str_nat index),
        tabbed 4 (''Frame '' @ str_int frame),
        tabbed 4 (''Value '' @ fmt val),
        tabbed 4 ''RHandle_dX 0.25'',
        tabbed 4 ''RHandle_dY 0'',
        tabbed 4 ''LHandle_dX -0.25'',
        tabbed 4 ''LHandle_dY 0'',
        tabbed 4 ''CurveMode hermite'',
        tabbed 4 (''CurveOrder '' @ curve_order),
        tabbed 4 ''End'']
      in if value_lock then py_insert 7 (tabbed 4 ''ValueLock yes'') kf_lines else kf_lines)"

definition animation_lines ::
  "('a \<Rightarrow> string) \<Rightarrow> (int \<times> 'a) list \<Rightarrow> bool \<Rightarrow> string \<Rightarrow> string list" where
  "animation_lines fmt animation value_lock curve_order =
     [tabbed 3 (''Size '' @ str_nat (length animation)), tabbed 3 ''KeyVersion 2''] @
     concat (map (\<lambda>(anim_index, frame_value).
         key_frame fmt anim_index (fst frame_value) (snd frame_value) value_lock curve_order)
       (enumerate 0 animation))"

definition add_animation ::
  "('a \<Rightarrow> string) \<Rightarrow> string \<Rightarrow> string list \<Rightarrow> string \<Rightarrow> (int \<times> 'a) list \<Rightarrow>
     bool \<Rightarrow> string \<Rightarrow> string \<Rightarrow> int \<Rightarrow> error + string list" where
  "add_animation fmt node_name stp channel animation value_lock extrapolation curve_order
       value_index =
     (case find_line node_name stp of
        None \<Rightarrow> Inl TypeError
      | Some node_line \<Rightarrow>
     (case find_line_after channel (int node_line) stp of
        None \<Rightarrow> Inl TypeError
      | Some channel_line \<Rightarrow>
     (case py_store stp (int channel_line + 1) (tabbed 3 (''Extrapolation '' @ extrapolation)) of
        Inl e \<Rightarrow> Inl e
      | Inr stp1 \<Rightarrow>
     (case py_index animation value_index of
        Inl e \<Rightarrow> Inl e
      | Inr frame_value \<Rightarrow>
     (case py_store stp1 (int channel_line + 2) (tabbed 3 (''Value '' @ fmt (snd frame_value))) of
        Inl e \<Rightarrow> Inl e
      | Inr stp2 \<Rightarrow>
          Inr (insert_enumerated (channel_line + 3)
                 (animation_lines fmt animation value_lock curve_order) stp2))))))"

subsection \<open>Python strings\<close>

text \<open>
  \<^verbatim>\<open>s.split(sep)\<close> for a one-character separator: the pieces between the separators, empty
  pieces included, so the result is never empty.
\<close>

fun split_on :: "char \<Rightarrow> string \<Rightarrow> string list" where
  "split_on sep [] = [[]]"
| "split_on sep (c # cs) =
     (if c = sep then [] # split_on sep cs
      else (case split_on sep cs of [] \<Rightarrow> [[c]] | w # ws \<Rightarrow> (c # w) # ws))"

text \<open>
  The characters \<^verbatim>\<open>str.split()\<close> treats as whitespace, among the ASCII ones the model's
  strings are made of: tab, newline, vertical tab, form feed, carriage return, the four
  separators \<^verbatim>\<open>\x1c\<close> to \<^verbatim>\<open>\x1f\<close>, and the space.
\<close>

definition py_isspace :: "char \<Rightarrow> bool" where
  "py_isspace c \<longleftrightarrow>
     c \<in> set [CHR 0x09, CHR 0x0A, CHR 0x0B, CHR 0x0C, CHR 0x0D,
                CHR 0x1C, CHR 0x1D, CHR 0x1E, CHR 0x1F, CHR 0x20]"

text \<open>\<^verbatim>\<open>s.split()\<close>: the maximal runs of characters that are not whitespace; \<open>w\<close> is the
  run being read.\<close>

fun words_from :: "string \<Rightarrow> string \<Rightarrow> string list" where
  "words_from w [] = (if w = [] then [] else [w])"
| "words_from w (c # cs) =
     (if py_isspace c then (if w = [] then words_from [] cs else w # words_from [] cs)
      else words_from (w @ [c]) cs)"

definition py_split :: "string \<Rightarrow> string list" where
  "py_split s = words_from [] s"

text \<open>\<^verbatim>\<open>s.replace(a, b)\<close> for one-character \<open>a\<close> and \<open>b\<close>.\<close>

definition py_replace :: "char \<Rightarrow> char \<Rightarrow> string \<Rightarrow> string" where
  "py_replace a b s = map (\<lambda>c. if c = a then b else c) s"

subsection \<open>Floats\<close>

text \<open>
  IEEE arithmetic, \<^verbatim>\<open>float(s)\<close> and the formatting of a float are Python's own and are not
  defined by the script.  The float type is the parameter \<open>'v\<close> and the operations the script
  applies to floats are the fields of \<open>float_ops\<close>; an operation that can raise returns
  \<open>None\<close> or \<open>Inl\<close> where Python raises.
\<close>

record 'v float_ops =
  float_of_str :: "string \<Rightarrow> 'v option"
  int_of_float :: "'v \<Rightarrow> error + int"
  int_of_str :: "string \<Rightarrow> int option"
  str_of_float :: "'v \<Rightarrow> string"
  float_sub :: "'v \<Rightarrow> 'v \<Rightarrow> 'v"
  float_sub_int :: "'v \<Rightarrow> int \<Rightarrow> 'v option"
  float_add_half :: "'v \<Rightarrow> 'v"
  float_sub_half :: "'v \<Rightarrow> 'v"

text \<open>
  \<^item> \<open>float_of_str s\<close> is \<^verbatim>\<open>float(s)\<close>, \<open>None\<close> for \<^verbatim>\<open>ValueError\<close>;
  \<^item> \<open>int_of_float v\<close> is \<^verbatim>\<open>int(v)\<close>, which raises on an infinity or a NaN;
  \<^item> \<open>int_of_str s\<close> is \<^verbatim>\<open>int(s)\<close>, \<open>None\<close> for \<^verbatim>\<open>ValueError\<close>;
  \<^item> \<open>str_of_float v\<close> is how an f-string prints \<open>v\<close>;
  \<^item> \<open>float_sub v w\<close> is \<^verbatim>\<open>v - w\<close> on two floats;
  \<^item> \<open>float_sub_int v n\<close> is \<^verbatim>\<open>v - n\<close> for an int \<open>n\<close>, \<open>None\<close> for the \<^verbatim>\<open>OverflowError\<close> of an
    int too large to convert;
  \<^item> \<open>float_add_half v\<close> is \<^verbatim>\<open>v + 0.5\<close> and \<open>float_sub_half v\<close> is \<^verbatim>\<open>v - 0.5\<close>.
\<close>

subsection \<open>The tracker state\<close>

type_synonym 'v keyframe = "int \<times> 'v \<times> 'v"

record 'v mocha_track =
  sf_offset :: int
  track_name :: string
  lower_left :: "'v keyframe list"
  lower_right :: "'v keyframe list"
  upper_left :: "'v keyframe list"
  upper_right :: "'v keyframe list"
  corners :: "(string \<times> 'v keyframe list) list"

text \<open>\<^verbatim>\<open>__init__\<close>, the fields the parser uses.  \<open>corners\<close> is a dict; its items are kept in
  insertion order, the order Python iterates them in.\<close>

definition init_track :: "int \<Rightarrow> 'v mocha_track" where
  "init_track start_frame =
     \<lparr>sf_offset = start_frame - 1, track_name = [], lower_left = [], lower_right = [],
      upper_left = [], upper_right = [], corners = []\<rparr>"

subsection \<open>\<^verbatim>\<open>parse_mocha_files\<close>: validating the selection\<close>

text \<open>The regular expression \<^verbatim>\<open>_Tracker[1-4]\<close> matched at the start of \<open>s\<close>.\<close>

definition tracker_at :: "string \<Rightarrow> bool" where
  "tracker_at s \<longleftrightarrow> (\<exists>d \<in> set ''1234''. prefix (''_Tracker'' @ [d]) s)"

text \<open>\<^verbatim>\<open>tracker_regex.search(file)\<close>: the start of the leftmost match, \<open>None\<close> without one.\<close>

fun tracker_search_from :: "nat \<Rightarrow> string \<Rightarrow> nat option" where
  "tracker_search_from pos [] = None"
| "tracker_search_from pos (c # cs) =
     (if tracker_at (c # cs) then Some pos else tracker_search_from (Suc pos) cs)"

definition tracker_search :: "string \<Rightarrow> nat option" where
  "tracker_search file = tracker_search_from 0 file"

text \<open>
  The loop over \<open>tracker_file_names\<close>.  \<open>mocha_names\<close> and \<open>track_name\<close> are the values the
  loop has built so far; \<^verbatim>\<open>len(set(mocha_names))\<close> is the number of distinct names.
\<close>

fun scan_tracker_names :: "string list \<Rightarrow> string \<Rightarrow> string list \<Rightarrow> error + string" where
  "scan_tracker_names mocha_names name [] = Inr name"
| "scan_tracker_names mocha_names name (file # rest) =
     (case tracker_search file of
        None \<Rightarrow> Inl TypeError
      | Some name_end \<Rightarrow>
          (let mocha_names' = mocha_names @ [take name_end file] in
           if card (set mocha_names') \<noteq> 1 then Inl ValueError
           else scan_tracker_names mocha_names' (hd mocha_names') rest))"

text \<open>\<open>tracker_file_names\<close>: of each selected path, what follows its last slash.\<close>

definition tracker_file_names :: "string list \<Rightarrow> string list" where
  "tracker_file_names selected_files = map (\<lambda>i. last (split_on CHR ''/'' i)) selected_files"

text \<open>Lines 566 to 610: the count of files, the file names, the scan.  The result is the
  \<open>track_name\<close> the scan leaves; it starts as the empty string.\<close>

definition parse_mocha_files_validate :: "string list \<Rightarrow> error + string" where
  "parse_mocha_files_validate selected_files =
     (if length selected_files \<noteq> 4 then Inl ValueError
      else scan_tracker_names [] [] (tracker_file_names selected_files))"

text \<open>\<open>tracker_name\<close>, the part of a file name before the leftmost match of the regular
  expression: what one file adds to \<open>mocha_names\<close>; \<open>None\<close> when the name has no match.\<close>

definition mocha_name :: "string \<Rightarrow> string option" where
  "mocha_name file = map_option (\<lambda>name_end. take name_end file) (tracker_search file)"

subsection \<open>\<^verbatim>\<open>parse_mocha_files\<close>: reading the keyframes\<close>

definition frame_to_tuple :: "'v float_ops \<Rightarrow> int \<Rightarrow> string \<Rightarrow> error + 'v keyframe" where
  "frame_to_tuple ops offset file_line =
     (let stripped = concat (py_split file_line);
          no_colon = py_replace CHR '':'' CHR '','' stripped;
          line_info_slice = split_on CHR '','' no_colon
      in case py_index line_info_slice 0 of Inl e \<Rightarrow> Inl e | Inr s0 \<Rightarrow>
         (case float_of_str ops s0 of None \<Rightarrow> Inl ValueError | Some frame_float \<Rightarrow>
         (case int_of_float ops frame_float of Inl e \<Rightarrow> Inl e | Inr frame_int \<Rightarrow>
         (case py_index line_info_slice 1 of Inl e \<Rightarrow> Inl e | Inr s1 \<Rightarrow>
         (case float_of_str ops s1 of None \<Rightarrow> Inl ValueError | Some x \<Rightarrow>
         (case py_index line_info_slice 2 of Inl e \<Rightarrow> Inl e | Inr s2 \<Rightarrow>
         (case float_of_str ops s2 of None \<Rightarrow> Inl ValueError | Some y \<Rightarrow>
            Inr (frame_int + offset, x, y))))))))"

text \<open>The \<^verbatim>\<open>if\<close>/\<^verbatim>\<open>elif\<close> chain on \<^verbatim>\<open>l[0:-6]\<close>, the path without its last six characters (an
  empty string when the path has fewer than six).\<close>

definition path_stem :: "string \<Rightarrow> string" where
  "path_stem l = take (length l - 6) l"

definition append_corner :: "string \<Rightarrow> 'v keyframe \<Rightarrow> 'v mocha_track \<Rightarrow> 'v mocha_track" where
  "append_corner l track_frame st =
     (let stem = path_stem l in
      if suffix ''Tracker1'' stem then st\<lparr>upper_left := upper_left st @ [track_frame]\<rparr>
      else if suffix ''Tracker2'' stem then st\<lparr>upper_right := upper_right st @ [track_frame]\<rparr>
      else if suffix ''Tracker3'' stem then st\<lparr>lower_left := lower_left st @ [track_frame]\<rparr>
      else if suffix ''Tracker4'' stem then st\<lparr>lower_right := lower_right st @ [track_frame]\<rparr>
      else st)"

text \<open>\<^verbatim>\<open>for line in f\<close>, for the file at path \<open>l\<close>.\<close>

fun read_tracker_lines ::
  "'v float_ops \<Rightarrow> string \<Rightarrow> string list \<Rightarrow> 'v mocha_track \<Rightarrow> error + 'v mocha_track" where
  "read_tracker_lines ops l [] st = Inr st"
| "read_tracker_lines ops l (file_line # rest) st =
     (case frame_to_tuple ops (sf_offset st) file_line of
        Inl e \<Rightarrow> Inl e
      | Inr track_frame \<Rightarrow> read_tracker_lines ops l rest (append_corner l track_frame st))"

text \<open>\<^verbatim>\<open>for l in selected_files\<close>.  \<open>files\<close> is the file system: the lines of the file at a
  path, \<open>None\<close> when \<^verbatim>\<open>open\<close> fails.\<close>

fun read_tracker_files ::
  "'v float_ops \<Rightarrow> (string \<Rightarrow> string list option) \<Rightarrow> string list \<Rightarrow> 'v mocha_track \<Rightarrow>
     error + 'v mocha_track" where
  "read_tracker_files ops files [] st = Inr st"
| "read_tracker_files ops files (l # rest) st =
     (case files l of
        None \<Rightarrow> Inl OSError
      | Some file_lines \<Rightarrow>
          (case read_tracker_lines ops l file_lines st of
             Inl e \<Rightarrow> Inl e
           | Inr st' \<Rightarrow> read_tracker_files ops files rest st'))"

definition parse_mocha_files ::
  "'v float_ops \<Rightarrow> (string \<Rightarrow> string list option) \<Rightarrow> string list \<Rightarrow> 'v mocha_track \<Rightarrow>
     error + 'v mocha_track" where
  "parse_mocha_files ops files selected_files st =
     (case parse_mocha_files_validate selected_files of
        Inl e \<Rightarrow> Inl e
      | Inr name \<Rightarrow>
          (case read_tracker_files ops files selected_files (st\<lparr>track_name := name\<rparr>) of
             Inl e \<Rightarrow> Inl e
           | Inr st' \<Rightarrow>
               Inr (st'\<lparr>corners :=
                      [(''lower_left'', lower_left st'), (''upper_left'', upper_left st'),
                       (''lower_right'', lower_right st'), (''upper_right'', upper_right st')]\<rparr>)))"

subsection \<open>The fields of a line, as the specification words them\<close>




subsection \<open>A symbolic instance of the float operations\<close>






subsection \<open>\<^verbatim>\<open>extract_dimension\<close>\<close>


subsection \<open>\<^verbatim>\<open>import_perspective_grid\<close>: the edits of the setup text\<close>







subsection \<open>\<^verbatim>\<open>add_tracker\<close>\<close>











subsection \<open>\<^verbatim>\<open>import_bilinear_uvs\<close>: the edits of the setup text\<close>


















subsection \<open>\<^verbatim>\<open>name_import\<close>\<close>



subsection \<open>The host application\<close>

text \<open>
  What the script reads from the host and the file system in one run.  \<open>host_node_names\<close> are
  the names of the host node's children once the new node is created; \<open>host_saved_setup\<close> is
  the text the host writes when asked to save the node setup, \<open>None\<close> when the file cannot
  be opened afterwards.
\<close>

record host =
  host_start_frame :: int
  host_node_name :: string
  host_node_type_str :: string
  host_cursor_position :: "int \<times> int"
  host_selected_files :: "string list"
  host_tracker_files :: "string \<Rightarrow> string list option"
  host_node_names :: "string list"
  host_saved_setup :: "string list option"

text \<open>What the script does to the host and the file system, in the order it does it.\<close>

datatype event =
    FileBrowser
  | MessagePrint
  | CreateNode string
  | SetNodeName string
  | SetNodePosition "int \<times> int"
  | MakeTempFolder string
  | SaveNodeSetup string
  | ReadSetupFile string
  | WriteSetupFile string "string list"
  | LoadNodeSetup string
  | RemoveTempFolder string

text \<open>A run is the events so far and either the exception that ended it or its result.\<close>

type_synonym 'a run = "event list \<times> (error + 'a)"

definition done_with :: "error + 'a \<Rightarrow> 'a run" where
  "done_with r = ([], r)"

definition emit :: "event \<Rightarrow> unit run" where
  "emit ev = ([ev], Inr ())"

definition and_then :: "'a run \<Rightarrow> ('a \<Rightarrow> 'b run) \<Rightarrow> 'b run" where
  "and_then m f =
     (case snd m of
        Inl e \<Rightarrow> (fst m, Inl e)
      | Inr a \<Rightarrow> (fst m @ fst (f a), snd (f a)))"

subsection \<open>\<^verbatim>\<open>__init__\<close>: paths\<close>







subsection \<open>The two import operations\<close>

text \<open>\<^verbatim>\<open>parse_mocha_files\<close> with its effects: the browser, and the message printed before an
  exception of the validation.\<close>

definition parse_mocha_files_run :: "'v float_ops \<Rightarrow> host \<Rightarrow> 'v mocha_track run" where
  "parse_mocha_files_run ops h =
     and_then (emit FileBrowser) (\<lambda>_.
     and_then (case parse_mocha_files_validate (host_selected_files h) of
                 Inl e \<Rightarrow> and_then (emit MessagePrint) (\<lambda>_. done_with (Inl e))
               | Inr name \<Rightarrow> done_with (Inr name)) (\<lambda>_.
       done_with (parse_mocha_files ops (host_tracker_files h) (host_selected_files h)
                    (init_track (host_start_frame h)))))"






subsection \<open>Reading a run\<close>

text \<open>
  \<open>written_before_load written tr\<close>: in the events \<open>tr\<close>, every \<open>LoadNodeSetup\<close> comes after
  a \<open>WriteSetupFile\<close>; \<open>written\<close> says whether one came before \<open>tr\<close>.  \<open>written_texts tr\<close> are
  the texts written to the setup file, in order.
\<close>

fun written_before_load :: "bool \<Rightarrow> event list \<Rightarrow> bool" where
  "written_before_load written [] = True"
| "written_before_load written (WriteSetupFile f txt # rest) = written_before_load True rest"
| "written_before_load written (LoadNodeSetup p # rest) =
     (written \<and> written_before_load written rest)"
| "written_before_load written (ev # rest) = written_before_load written rest"

fun written_texts :: "event list \<Rightarrow> string list list" where
  "written_texts [] = []"
| "written_texts (WriteSetupFile f txt # rest) = txt # written_texts rest"
| "written_texts (ev # rest) = written_texts rest"

subsection \<open>Example input\<close>









section \<open>Properties\<close>

subsection \<open>Substring search\<close>

lemma py_in_sublist: "py_in item line \<longleftrightarrow> sublist item line"
proof (induction line)
  case Nil
  show ?case by auto
next
  case (Cons c cs)
  have "sublist item (c # cs) \<longleftrightarrow> prefix item (c # cs) \<or> sublist item cs"
    by (rule sublist_Cons_right)
  with Cons show ?case by simp
qed

subsection \<open>The first matching line\<close>

lemma find_line_from_Some:
  "find_line_from k item stp = Some i \<longleftrightarrow>
     (\<exists>m. i = k + m \<and> m < length stp \<and> py_in item (stp ! m) \<and>
     (\<forall>j < m. \<not> py_in item (stp ! j)))"
proof (induction stp arbitrary: k)
  case Nil
  show ?case by simp
next
  case (Cons l ls)
  show ?case
  proof (cases "py_in item l")
    case True
    have "(\<exists>m. i = k + m \<and> m < length (l # ls) \<and> py_in item ((l # ls) ! m) \<and>
            (\<forall>j < m. \<not> py_in item ((l # ls) ! j))) \<longleftrightarrow> i = k"
    proof
      assume "\<exists>m. i = k + m \<and> m < length (l # ls) \<and> py_in item ((l # ls) ! m) \<and>
            (\<forall>j < m. \<not> py_in item ((l # ls) ! j))"
      then obtain m where m: "i = k + m" "\<forall>j < m. \<not> py_in item ((l # ls) ! j)" by blast
      have "m = 0"
      proof (rule ccontr)
        assume "m \<noteq> 0"
        then have "0 < m" by simp
        with m(2) have "\<not> py_in item ((l # ls) ! 0)" by blast
        with True show False by simp
      qed
      with m(1) show "i = k" by simp
    next
      assume "i = k"
      with True show "\<exists>m. i = k + m \<and> m < length (l # ls) \<and> py_in item ((l # ls) ! m) \<and>
            (\<forall>j < m. \<not> py_in item ((l # ls) ! j))"
        by (intro exI [of _ 0]) simp
    qed
    with True show ?thesis by auto
  next
    case False
    have "(\<exists>m. i = k + m \<and> m < length (l # ls) \<and> py_in item ((l # ls) ! m) \<and>
            (\<forall>j < m. \<not> py_in item ((l # ls) ! j))) \<longleftrightarrow>
          (\<exists>m. i = Suc k + m \<and> m < length ls \<and> py_in item (ls ! m) \<and>
            (\<forall>j < m. \<not> py_in item (ls ! j)))" (is "?L \<longleftrightarrow> ?R")
    proof
      assume ?L
      then obtain m where m: "i = k + m" "m < length (l # ls)" "py_in item ((l # ls) ! m)"
        "\<forall>j < m. \<not> py_in item ((l # ls) ! j)" by blast
      from m(3) False obtain m' where m': "m = Suc m'" by (cases m) auto
      have "\<forall>j < m'. \<not> py_in item (ls ! j)"
      proof (intro allI impI)
        fix j assume "j < m'"
        then have "Suc j < m" using m' by simp
        with m(4) have "\<not> py_in item ((l # ls) ! Suc j)" by blast
        then show "\<not> py_in item (ls ! j)" by simp
      qed
      with m m' show ?R by (intro exI [of _ m']) simp
    next
      assume ?R
      then obtain m where m: "i = Suc k + m" "m < length ls" "py_in item (ls ! m)"
        "\<forall>j < m. \<not> py_in item (ls ! j)" by blast
      have "\<forall>j < Suc m. \<not> py_in item ((l # ls) ! j)"
      proof (intro allI impI)
        fix j assume "j < Suc m"
        then show "\<not> py_in item ((l # ls) ! j)" using False m(4) by (cases j) auto
      qed
      with m show ?L by (intro exI [of _ "Suc m"]) simp
    qed
    with False Cons.IH [of "Suc k"] show ?thesis by simp
  qed
qed
lemma find_line_from_None:
  "find_line_from k item stp = None \<longleftrightarrow> (\<forall>j < length stp. \<not> py_in item (stp ! j))"
  by (induction stp arbitrary: k) (auto simp: less_Suc_eq_0_disj)

lemma find_line_after_from_past:
  "n < int k \<Longrightarrow> find_line_after_from k item n stp = find_line_from k item stp"
  by (induction stp arbitrary: k) auto

lemma find_line_after_from_skip:
  "int k \<le> n \<Longrightarrow> find_line_after_from k item n stp =
     find_line_after_from (nat (n + 1)) item n (drop (nat (n + 1) - k) stp)"
proof (induction stp arbitrary: k)
  case Nil
  show ?case by simp
next
  case (Cons l ls)
  show ?case
  proof (cases "int (Suc k) \<le> n")
    case True
    then have "nat (n + 1) - k = Suc (nat (n + 1) - Suc k)" by linarith
    with Cons.IH [OF True] Cons.prems show ?thesis by simp
  next
    case False
    with Cons.prems have "nat (n + 1) = Suc k" by linarith
    with Cons.prems show ?thesis by simp
  qed
qed

lemma find_line_after_from_0:
  "find_line_after_from 0 item n stp =
     find_line_from (nat (n + 1)) item (drop (nat (n + 1)) stp)"
proof (cases "n < 0")
  case True
  then show ?thesis by (simp add: find_line_after_from_past)
next
  case False
  then have "int 0 \<le> n" by simp
  from find_line_after_from_skip [OF this]
  show ?thesis by (simp add: find_line_after_from_past)
qed
lemma find_line_Some:
  "find_line item stp = Some i \<longleftrightarrow>
     i < length stp \<and> py_in item (stp ! i) \<and> (\<forall>j < i. \<not> py_in item (stp ! j))"
  by (simp add: find_line_def find_line_from_Some)

lemma find_line_None:
  "find_line item stp = None \<longleftrightarrow> (\<forall>j < length stp. \<not> py_in item (stp ! j))"
  by (simp add: find_line_def find_line_from_None)

lemma find_line_after_Some:
  "find_line_after item n stp = Some i \<longleftrightarrow>
     n < int i \<and> i < length stp \<and> py_in item (stp ! i) \<and>
     (\<forall>j < i. n < int j \<longrightarrow> \<not> py_in item (stp ! j))"
proof -
  define d where "d = nat (n + 1)"
  have d: "n < int j \<longleftrightarrow> d \<le> j" for j unfolding d_def by linarith
  show ?thesis
  proof (cases "d \<le> length stp")
    case True
    have "(\<exists>m. i = d + m \<and> m < length stp - d \<and> py_in item (stp ! (d + m)) \<and>
            (\<forall>j < m. \<not> py_in item (stp ! (d + j)))) \<longleftrightarrow>
          (d \<le> i \<and> i < length stp \<and> py_in item (stp ! i) \<and>
            (\<forall>j < i. d \<le> j \<longrightarrow> \<not> py_in item (stp ! j)))" (is "?L \<longleftrightarrow> ?R")
    proof
      assume ?L
      then obtain m where m: "i = d + m" "m < length stp - d" "py_in item (stp ! (d + m))"
        "\<forall>j < m. \<not> py_in item (stp ! (d + j))" by blast
      have "\<not> py_in item (stp ! j)" if "j < i" "d \<le> j" for j
      proof -
        from that m(1) have "j - d < m" "j = d + (j - d)" by simp_all
        with m(4) show ?thesis by metis
      qed
      with m show ?R by simp
    next
      assume r: ?R
      then have "i = d + (i - d)" "i - d < length stp - d" by auto
      moreover from r have "py_in item (stp ! (d + (i - d)))" by simp
      moreover from r have "\<forall>j < i - d. \<not> py_in item (stp ! (d + j))" by simp
      ultimately show ?L by blast
    qed
    with True show ?thesis
      by (simp add: find_line_after_def find_line_after_from_0 find_line_from_Some
          d_def [symmetric] d)
  next
    case False
    then show ?thesis
      by (simp add: find_line_after_def find_line_after_from_0 d_def [symmetric] d)
  qed
qed

lemma find_line_after_None:
  "find_line_after item n stp = None \<longleftrightarrow>
     (\<forall>j < length stp. n < int j \<longrightarrow> \<not> py_in item (stp ! j))"
proof -
  define d where "d = nat (n + 1)"
  have d: "n < int j \<longleftrightarrow> d \<le> j" for j unfolding d_def by linarith
  have "(\<forall>j < length stp - d. \<not> py_in item (stp ! (d + j))) \<longleftrightarrow>
        (\<forall>j < length stp. d \<le> j \<longrightarrow> \<not> py_in item (stp ! j))" (is "?L \<longleftrightarrow> ?R")
  proof
    assume l: ?L
    show ?R
    proof (intro allI impI)
      fix j assume "j < length stp" "d \<le> j"
      then have "j - d < length stp - d" "j = d + (j - d)" by simp_all
      with l show "\<not> py_in item (stp ! j)" by metis
    qed
  next
    assume ?R
    then show ?L by simp
  qed
  then show ?thesis
    by (cases "d \<le> length stp")
      (simp_all add: find_line_after_def find_line_after_from_0 find_line_from_None
        d_def [symmetric] d)
qed

text \<open>
  Claim C9.  \<^verbatim>\<open>find_line\<close> returns the smallest index whose line contains \<open>item\<close> as a
  substring, and \<^verbatim>\<open>None\<close> when no line does; \<^verbatim>\<open>find_line_after\<close> returns the smallest
  such index strictly greater than \<open>n\<close>, and \<^verbatim>\<open>None\<close> when there is none.
\<close>

theorem find_line_smallest_index:
  "(find_line item stp = Some i \<longleftrightarrow>
      i < length stp \<and> sublist item (stp ! i) \<and> (\<forall>j < i. \<not> sublist item (stp ! j))) \<and>
   (find_line item stp = None \<longleftrightarrow> (\<forall>j < length stp. \<not> sublist item (stp ! j))) \<and>
   (find_line_after item n stp = Some k \<longleftrightarrow>
      n < int k \<and> k < length stp \<and> sublist item (stp ! k) \<and>
      (\<forall>j < k. n < int j \<longrightarrow> \<not> sublist item (stp ! j))) \<and>
   (find_line_after item n stp = None \<longleftrightarrow>
      (\<forall>j < length stp. n < int j \<longrightarrow> \<not> sublist item (stp ! j)))"
  by (simp only: find_line_Some find_line_None find_line_after_Some find_line_after_None
      py_in_sublist simp_thms)

theorem find_line_smallest_index_witness:
  "find_line ''b'' [''a'', ''ab'', ''cb''] = Some 1 \<and>
   find_line ''d'' [''a'', ''ab'', ''cb''] = None \<and>
   find_line_after ''b'' 1 [''a'', ''ab'', ''cb''] = Some 2 \<and>
   find_line_after ''b'' 2 [''a'', ''ab'', ''cb''] = None"
proof -
  let ?stp = "[''a'', ''ab'', ''cb'']"
  have 1: "1 < length ?stp \<and> sublist ''b'' (?stp ! 1) \<and> (\<forall>j < 1. \<not> sublist ''b'' (?stp ! j))"
    by (simp add: sublist_Cons_right)
  have 2: "\<forall>j < length ?stp. \<not> sublist ''d'' (?stp ! j)"
    by (simp add: sublist_Cons_right All_less_Suc)
  have 3: "1 < int 2 \<and> 2 < length ?stp \<and> sublist ''b'' (?stp ! 2) \<and>
      (\<forall>j < 2. 1 < int j \<longrightarrow> \<not> sublist ''b'' (?stp ! j))"
    by (simp add: sublist_Cons_right All_less_Suc numeral_2_eq_2)
  have 4: "\<forall>j < length ?stp. 2 < int j \<longrightarrow> \<not> sublist ''b'' (?stp ! j)"
    by (simp add: All_less_Suc)
  from 1 2 show ?thesis
    using find_line_smallest_index [of "''b''" ?stp 1 1 2] 3
      find_line_smallest_index [of "''d''" ?stp 0 2 0]
      find_line_smallest_index [of "''b''" ?stp 0 2 0] 4
    by blast
qed

subsection \<open>Evaluating the model on concrete input\<close>






subsection \<open>\<^verbatim>\<open>add_animation\<close>\<close>

lemma insert_enumerated_splice:
  "i \<le> length xs \<Longrightarrow> insert_enumerated i vs xs = take i xs @ vs @ drop i xs"
proof (induction vs arbitrary: i xs)
  case Nil
  show ?case by simp
next
  case (Cons v vs)
  have "insert_enumerated (Suc i) vs (py_insert i v xs) =
        take (Suc i) (py_insert i v xs) @ vs @ drop (Suc i) (py_insert i v xs)"
    using Cons.prems by (intro Cons.IH) (simp add: py_insert_def)
  also have "take (Suc i) (py_insert i v xs) = take i xs @ [v]"
    using Cons.prems by (simp add: py_insert_def take_Suc_conv_app_nth min_def take_append)
  also have "drop (Suc i) (py_insert i v xs) = drop i xs"
    using Cons.prems by (simp add: py_insert_def drop_append min_def)
  finally show ?case by simp
qed

lemma length_key_frame:
  "length (key_frame fmt i f v vl co) = (if vl then 11 else 10)"
  by (simp add: key_frame_def py_insert_def)

lemma length_concat_const:
  "(\<And>x. x \<in> set xs \<Longrightarrow> length (g x) = k) \<Longrightarrow> length (concat (map g xs)) = k * length xs"
  by (induction xs) auto

lemma length_animation_lines:
  "length (animation_lines fmt animation vl co) = 2 + (if vl then 11 else 10) * length animation"
proof -
  have "length (concat (map (\<lambda>(anim_index, frame_value).
         key_frame fmt anim_index (fst frame_value) (snd frame_value) vl co)
       (enumerate 0 animation))) = (if vl then 11 else 10) * length (enumerate 0 animation)"
    by (rule length_concat_const) (auto simp: length_key_frame)
  then show ?thesis by (simp add: animation_lines_def)
qed

lemma add_animation_splice:
  assumes g: "find_line node_name stp = Some g"
    and c: "find_line_after channel (int g) stp = Some c"
    and len: "c + 2 < length stp"
    and vi: "py_index animation value_index = Inr fv"
  shows "add_animation fmt node_name stp channel animation value_lock extrapolation
           curve_order value_index =
         Inr (take (c + 1) stp @
              [tabbed 3 (''Extrapolation '' @ extrapolation),
               tabbed 3 (''Value '' @ fmt (snd fv))] @
              animation_lines fmt animation value_lock curve_order @
              drop (c + 3) stp)"
proof -
  let ?E = "tabbed 3 (''Extrapolation '' @ extrapolation)"
  let ?V = "tabbed 3 (''Value '' @ fmt (snd fv))"
  let ?A = "animation_lines fmt animation value_lock curve_order"
  let ?s2 = "stp[c + 1 := ?E, c + 2 := ?V]"
  have s1: "py_store stp (int c + 1) ?E = Inr (stp[c + 1 := ?E])"
    using len by (simp add: py_store_def py_position_def nat_add_distrib)
  have s2: "py_store (stp[c + 1 := ?E]) (int c + 2) ?V = Inr ?s2"
    using len by (simp add: py_store_def py_position_def nat_add_distrib)
  have run: "add_animation fmt node_name stp channel animation value_lock extrapolation
           curve_order value_index = Inr (insert_enumerated (c + 3) ?A ?s2)"
    by (simp only: add_animation_def g c s1 s2 vi option.case sum.case)
  have "insert_enumerated (c + 3) ?A ?s2 = take (c + 3) ?s2 @ ?A @ drop (c + 3) ?s2"
    using len by (intro insert_enumerated_splice) simp
  moreover have "drop (c + 3) ?s2 = drop (c + 3) stp"
    by simp
  moreover have "take (c + 3) ?s2 = take (c + 1) stp @ [?E, ?V]"
  proof -
    have "take (c + 3) ?s2 = (take (c + 3) stp)[c + 1 := ?E, c + 2 := ?V]"
      by (simp add: take_update_swap)
    also have "take (c + 3) stp = take (c + 1) stp @ [stp ! (c + 1), stp ! (c + 2)]"
    proof -
      have e: "c + 3 = Suc (Suc (Suc c))" "c + 2 = Suc (Suc c)" "c + 1 = Suc c" by simp_all
      show ?thesis unfolding e using len by (simp add: take_Suc_conv_app_nth)
    qed
    also have "(take (c + 1) stp @ [stp ! (c + 1), stp ! (c + 2)])[c + 1 := ?E, c + 2 := ?V]
               = take (c + 1) stp @ [?E, ?V]"
      using len by (simp add: list_update_append)
    finally show ?thesis .
  qed
  ultimately show ?thesis using run by simp
qed

lemma py_index_last: "xs \<noteq> [] \<Longrightarrow> py_index xs (- 1) = Inr (last xs)"
proof -
  assume ne: "xs \<noteq> []"
  then have "0 < length xs" by simp
  then have "py_position (length xs) (- 1) = Some (length xs - 1)"
    by (cases xs) (auto simp: py_position_def nat_diff_distrib)
  with ne show ?thesis by (simp add: py_index_def last_conv_nth)
qed

lemma splice_nth:
  fixes P A D :: "'a list" and E V :: 'a
  defines "res \<equiv> P @ E # V # A @ D"
  shows "length res = length P + 2 + length A + length D"
    and "i < length P \<Longrightarrow> res ! i = P ! i"
    and "res ! length P = E"
    and "res ! (length P + 1) = V"
    and "drop (length P + 2) res = A @ D"
    and "res ! (length P + 2 + length A + k) = D ! k"
  by (simp_all add: res_def nth_append)

text \<open>
  Claim C10 (amended).  When \<open>node_name\<close> first occurs at line \<open>g\<close>, \<open>channel\<close> first occurs
  after it at line \<open>c\<close>, the lines \<open>c + 1\<close> and \<open>c + 2\<close> exist and \<open>value_index\<close> is a valid
  index of the animation, \<^verbatim>\<open>add_animation\<close> returns the setup with line \<open>c + 1\<close> replaced by
  the Extrapolation line, line \<open>c + 2\<close> by the Value line of \<open>animation[value_index]\<close>, and
  \<open>2 + 10 * len(animation)\<close> lines (11 per keyframe under \<open>value_lock\<close>) inserted at index
  \<open>c + 3\<close>; lines up to \<open>c\<close> stay in place and the lines from \<open>c + 3\<close> on move down unchanged.
\<close>

theorem add_animation_frame_effect:
  assumes "find_line node_name stp = Some g"
    and "find_line_after channel (int g) stp = Some c"
    and "c + 2 < length stp"
    and "py_index animation value_index = Inr fv"
  shows "\<exists>res. add_animation fmt node_name stp channel animation value_lock extrapolation
             curve_order value_index = Inr res \<and>
           length res = length stp + (2 + (if value_lock then 11 else 10) * length animation) \<and>
           (\<forall>i \<le> c. res ! i = stp ! i) \<and>
           res ! (c + 1) = tabbed 3 (''Extrapolation '' @ extrapolation) \<and>
           res ! (c + 2) = tabbed 3 (''Value '' @ fmt (snd fv)) \<and>
           take (2 + (if value_lock then 11 else 10) * length animation) (drop (c + 3) res) =
             animation_lines fmt animation value_lock curve_order \<and>
           (\<forall>i. c + 3 \<le> i \<and> i < length stp \<longrightarrow>
              res ! (i + (2 + (if value_lock then 11 else 10) * length animation)) = stp ! i)"
proof -
  define E where "E = tabbed 3 (''Extrapolation '' @ extrapolation)"
  define V where "V = tabbed 3 (''Value '' @ fmt (snd fv))"
  define A where "A = animation_lines fmt animation value_lock curve_order"
  define n where "n = 2 + (if value_lock then 11 else 10) * length animation"
  define P where "P = take (c + 1) stp"
  define D where "D = drop (c + 3) stp"
  define res where "res = P @ E # V # A @ D"
  have lenA: "length A = n" unfolding n_def A_def by (rule length_animation_lines)
  have lenP: "length P = c + 1" using assms(3) by (simp add: P_def)
  have lenD: "length D = length stp - (c + 3)" by (simp add: D_def)
  have "add_animation fmt node_name stp channel animation value_lock extrapolation
             curve_order value_index =
        Inr (take (c + 1) stp @ [tabbed 3 (''Extrapolation '' @ extrapolation),
               tabbed 3 (''Value '' @ fmt (snd fv))] @
              animation_lines fmt animation value_lock curve_order @ drop (c + 3) stp)"
    using assms by (rule add_animation_splice)
  then have run: "add_animation fmt node_name stp channel animation value_lock extrapolation
             curve_order value_index = Inr res"
    by (simp only: res_def E_def V_def A_def P_def D_def append_Cons append_Nil)
  have 1: "length res = length stp + n"
    using splice_nth(1) [of P E V A D] assms(3) by (simp add: res_def lenA lenP lenD)
  have 2: "res ! i = stp ! i" if "i \<le> c" for i
  proof -
    from that have "i < length P" by (simp add: lenP)
    then have "res ! i = P ! i" unfolding res_def by (rule splice_nth(2))
    also have "\<dots> = stp ! i" using that by (simp add: P_def)
    finally show ?thesis .
  qed
  have 3: "res ! (c + 1) = E"
    using splice_nth(3) [of P E V A D] by (simp only: res_def lenP)
  have 4: "res ! (c + 2) = V"
    using splice_nth(4) [of P E V A D] by (simp add: res_def lenP)
  have d: "drop (c + 3) res = A @ D"
    using splice_nth(5) [of P E V A D] by (simp add: res_def lenP)
  have 5: "take n (drop (c + 3) res) = A"
    unfolding d using lenA by simp
  have 6: "res ! (i + n) = stp ! i" if "c + 3 \<le> i \<and> i < length stp" for i
  proof -
    have "i + n = length P + 2 + length A + (i - (c + 3))"
      using that unfolding lenP lenA by linarith
    then have "res ! (i + n) = D ! (i - (c + 3))"
      unfolding res_def by (simp only: splice_nth(6))
    also have "\<dots> = stp ! i" using that by (simp add: D_def)
    finally show ?thesis .
  qed
  from run 1 2 3 4 5 6 show ?thesis unfolding n_def E_def V_def A_def by blast
qed

theorem add_animation_frame_effect_witness:
  "find_line ''N'' [''N'', ''ch'', ''a'', ''b'', ''c''] = Some 0 \<and>
   find_line_after ''ch'' 0 [''N'', ''ch'', ''a'', ''b'', ''c''] = Some 1 \<and>
   py_index [(1 :: int, 5 :: int), (2, 7)] (- 1) = Inr (2, 7) \<and>
   (\<exists>res. add_animation str_int ''N'' [''N'', ''ch'', ''a'', ''b'', ''c''] ''ch''
              [(1, 5), (2, 7)] True ''constant'' ''linear'' (- 1) = Inr res \<and>
          length res = 29 \<and> res ! 0 = ''N'' \<and> res ! 1 = ''ch'' \<and>
          res ! 2 = tabbed 3 ''Extrapolation constant'' \<and>
          res ! 3 = tabbed 3 ''Value 7'' \<and> res ! 28 = ''c'')"
proof -
  let ?stp = "[''N'', ''ch'', ''a'', ''b'', ''c'']"
  let ?an = "[(1 :: int, 5 :: int), (2, 7)]"
  have g: "find_line ''N'' ?stp = Some 0"
    by (simp add: find_line_def)
  have c: "find_line_after ''ch'' (int 0) ?stp = Some 1"
    by (simp add: find_line_after_def)
  have l: "1 + 2 < length ?stp" by simp
  have v: "py_index ?an (- 1) = Inr (2, 7)"
    by (simp add: py_index_def py_position_def)
  have s: "str_int 7 = ''7''"
    by (simp add: str_int_def str_nat.simps digit_char_def)
  from add_animation_frame_effect [OF g c l v, of str_int True "''constant''" "''linear''"]
  obtain res where r: "add_animation str_int ''N'' ?stp ''ch''
              ?an True ''constant'' ''linear'' (- 1) = Inr res"
    and r2: "length res = length ?stp + (2 + (if True then 11 else 10) * length ?an)"
    and r3: "\<forall>i \<le> 1. res ! i = ?stp ! i"
    and r4: "res ! (1 + 1) = tabbed 3 (''Extrapolation '' @ ''constant'')"
    and r5: "res ! (1 + 2) = tabbed 3 (''Value '' @ str_int (snd (2 :: int, 7)))"
    and r6: "\<forall>i. 1 + 3 \<le> i \<and> i < length ?stp \<longrightarrow>
       res ! (i + (2 + (if True then 11 else 10) * length ?an)) = ?stp ! i"
    by (elim exE conjE)
  have n: "(1::nat) + 1 = 2" "(1::nat) + 2 = 3"
    "(4::nat) + (2 + (if True then 11 else 10) * length ?an) = 28" by simp_all
  from r2 have a: "length res = 29" by simp
  from r3 have "res ! 0 = ?stp ! 0" "res ! 1 = ?stp ! 1" by simp_all
  then have b: "res ! 0 = ''N''" "res ! 1 = ''ch''" by simp_all
  from r4 have d: "res ! 2 = tabbed 3 ''Extrapolation constant''" unfolding n by simp
  from r5 have e: "res ! 3 = tabbed 3 ''Value 7''" unfolding n by (simp add: s)
  from r6 [THEN spec, of 4] have f: "res ! 28 = ''c''" unfolding n by simp
  from r a b d e f have "\<exists>res. add_animation str_int ''N'' ?stp ''ch''
              ?an True ''constant'' ''linear'' (- 1) = Inr res \<and>
          length res = 29 \<and> res ! 0 = ''N'' \<and> res ! 1 = ''ch'' \<and>
          res ! 2 = tabbed 3 ''Extrapolation constant'' \<and>
          res ! 3 = tabbed 3 ''Value 7'' \<and> res ! 28 = ''c''" by blast
  with g c v show ?thesis by simp
qed

text \<open>
  The claim as written, for every setup in which the channel line exists: when the channel
  line is the last line there is no line \<open>c + 1\<close> to replace, and the store raises
  \<^verbatim>\<open>IndexError\<close>.
\<close>

theorem add_animation_short_setup_counterexample:
  "find_line ''N'' [''N'', ''ch''] = Some 0 \<and>
   find_line_after ''ch'' 0 [''N'', ''ch''] = Some 1 \<and>
   add_animation str_int ''N'' [''N'', ''ch''] ''ch'' [(1, 5)] False ''linear'' ''linear'' 0
     = Inl IndexError"
  by (simp add: find_line_def find_line_after_def add_animation_def py_store_def py_position_def)

subsection \<open>Validating the selection\<close>

definition first_failing :: "('a \<Rightarrow> bool) \<Rightarrow> ('a \<Rightarrow> bool) \<Rightarrow> 'a list \<Rightarrow> bool" where
  "first_failing bad good xs \<longleftrightarrow>
     (\<exists>pre x post. xs = pre @ x # post \<and> bad x \<and> (\<forall>g \<in> set pre. good g))"

lemma first_failing_Nil: "\<not> first_failing bad good []"
  by (simp add: first_failing_def)

lemma first_failing_Cons:
  "first_failing bad good (y # ys) \<longleftrightarrow> bad y \<or> (good y \<and> first_failing bad good ys)"
proof
  assume "first_failing bad good (y # ys)"
  then obtain pre x post where d: "y # ys = pre @ x # post" "bad x" "\<forall>g \<in> set pre. good g"
    unfolding first_failing_def by blast
  show "bad y \<or> (good y \<and> first_failing bad good ys)"
  proof (cases pre)
    case Nil
    with d show ?thesis by simp
  next
    case (Cons p ps)
    with d have "ys = ps @ x # post" "good y" "\<forall>g \<in> set ps. good g" by simp_all
    with d(2) show ?thesis unfolding first_failing_def by blast
  qed
next
  assume "bad y \<or> (good y \<and> first_failing bad good ys)"
  then show "first_failing bad good (y # ys)"
  proof
    assume "bad y"
    then have "y # ys = [] @ y # ys \<and> bad y \<and> (\<forall>g \<in> set []. good g)" by simp
    then show ?thesis unfolding first_failing_def by blast
  next
    assume "good y \<and> first_failing bad good ys"
    then obtain pre x post where "ys = pre @ x # post" "bad x" "\<forall>g \<in> set pre. good g" "good y"
      unfolding first_failing_def by blast
    then have "y # ys = (y # pre) @ x # post \<and> bad x \<and> (\<forall>g \<in> set (y # pre). good g)"
      by simp
    then show ?thesis unfolding first_failing_def by blast
  qed
qed

lemma scan_tracker_names_acc:
  assumes "ns \<noteq> []" and "set ns = {t}"
  shows "(scan_tracker_names ns nm fs = Inr r \<longleftrightarrow>
            (\<forall>f \<in> set fs. mocha_name f = Some t) \<and> r = (if fs = [] then nm else t)) \<and>
         (scan_tracker_names ns nm fs = Inl e \<longleftrightarrow>
            (e = TypeError \<and> first_failing (\<lambda>f. mocha_name f = None) (\<lambda>f. mocha_name f = Some t) fs) \<or>
            (e = ValueError \<and> first_failing (\<lambda>f. \<exists>u. mocha_name f = Some u \<and> u \<noteq> t)
                (\<lambda>f. mocha_name f = Some t) fs))"
  using assms
proof (induction fs arbitrary: ns nm)
  case Nil
  show ?case by (auto simp: first_failing_Nil)
next
  case (Cons f fs)
  show ?case
  proof (cases "tracker_search f")
    case None
    then have "mocha_name f = None" by (simp add: mocha_name_def)
    with None show ?thesis by (auto simp: first_failing_Cons)
  next
    case (Some name_end)
    define u where "u = take name_end f"
    have mn: "mocha_name f = Some u" by (simp add: mocha_name_def Some u_def)
    have hd: "hd (ns @ [u]) = t" using Cons.prems by (cases ns) auto
    show ?thesis
    proof (cases "u = t")
      case True
      then have "set (ns @ [u]) = {t}" "ns @ [u] \<noteq> []" using Cons.prems by auto
      from Cons.IH [OF this(2) this(1), of t] True mn Some hd Cons.prems
      show ?thesis
        by (simp add: first_failing_Cons u_def [symmetric])
    next
      case False
      then have "card (set (ns @ [u])) \<noteq> 1" using Cons.prems by simp
      with False mn Some show ?thesis
        by (auto simp: first_failing_Cons u_def [symmetric] Let_def)
    qed
  qed
qed
lemma scan_tracker_names_start:
  assumes "fs \<noteq> []"
  shows "(scan_tracker_names [] nm fs = Inr r \<longleftrightarrow> (\<forall>f \<in> set fs. mocha_name f = Some r)) \<and>
         (scan_tracker_names [] nm fs = Inl e \<longleftrightarrow>
            (e = TypeError \<and>
              (\<exists>t. first_failing (\<lambda>f. mocha_name f = None) (\<lambda>f. mocha_name f = Some t) fs)) \<or>
            (e = ValueError \<and>
              (\<exists>t. mocha_name (hd fs) = Some t \<and>
                 first_failing (\<lambda>f. \<exists>u. mocha_name f = Some u \<and> u \<noteq> t)
                   (\<lambda>f. mocha_name f = Some t) fs)))"
proof -
  from assms obtain f rest where fs: "fs = f # rest" by (cases fs) auto
  show ?thesis
  proof (cases "tracker_search f")
    case None
    then have "mocha_name f = None" by (simp add: mocha_name_def)
    with None show ?thesis unfolding fs by (auto simp: first_failing_Cons)
  next
    case (Some name_end)
    define u where "u = take name_end f"
    have mn: "mocha_name f = Some u" by (simp add: mocha_name_def Some u_def)
    have step: "scan_tracker_names [] nm (f # rest) = scan_tracker_names [u] u rest"
      by (simp add: Some u_def)
    have "[u] \<noteq> []" "set [u] = {u}" by simp_all
    note acc = scan_tracker_names_acc [OF this, of u rest]
    show ?thesis unfolding fs step using mn acc [of r e]
      by (auto simp: first_failing_Cons)
  qed
qed

lemma tracker_search_from_None:
  "tracker_search_from k s = None \<longleftrightarrow> (\<forall>d \<in> set ''1234''. \<not> sublist (''_Tracker'' @ [d]) s)"
proof (induction s arbitrary: k)
  case Nil
  show ?case by simp
next
  case (Cons c cs)
  have "tracker_at (c # cs) \<or> (\<exists>d \<in> set ''1234''. sublist (''_Tracker'' @ [d]) cs) \<longleftrightarrow>
        (\<exists>d \<in> set ''1234''. sublist (''_Tracker'' @ [d]) (c # cs))"
    unfolding tracker_at_def sublist_Cons_right by blast
  with Cons [of "Suc k"] show ?case by auto
qed

lemma tracker_search_from_Some:
  "tracker_search_from k s = Some p \<Longrightarrow>
     k \<le> p \<and> (\<exists>d \<in> set ''1234''. prefix (take (p - k) s @ ''_Tracker'' @ [d]) s)"
proof (induction s arbitrary: k)
  case Nil
  then show ?case by simp
next
  case (Cons c cs)
  show ?case
  proof (cases "tracker_at (c # cs)")
    case True
    with Cons.prems have "p = k" by simp
    with True show ?thesis by (simp add: tracker_at_def)
  next
    case False
    with Cons.prems have "tracker_search_from (Suc k) cs = Some p" by simp
    from Cons.IH [OF this] obtain d where
      d: "Suc k \<le> p" "d \<in> set ''1234''" "prefix (take (p - Suc k) cs @ ''_Tracker'' @ [d]) cs"
      by blast
    from d(1) have "p - k = Suc (p - Suc k)" by simp
    with d(3) have "prefix (take (p - k) (c # cs) @ ''_Tracker'' @ [d]) (c # cs)" by simp
    with d(1,2) show ?thesis by (intro conjI bexI [of _ d]) simp_all
  qed
qed

lemma mocha_name_None:
  "mocha_name f = None \<longleftrightarrow> (\<forall>d \<in> set ''1234''. \<not> sublist (''_Tracker'' @ [d]) f)"
  by (simp add: mocha_name_def tracker_search_def tracker_search_from_None)

lemma mocha_name_Some:
  "mocha_name f = Some t \<Longrightarrow> \<exists>d \<in> set ''1234''. prefix (t @ ''_Tracker'' @ [d]) f"
  using tracker_search_from_Some [of 0 f]
  by (auto simp: mocha_name_def tracker_search_def)

text \<open>
  Claim C1 (amended).  A selection of other than four files raises \<^verbatim>\<open>ValueError\<close>.  With four
  files the names are checked in selection order and the first file that fails decides the
  exception: \<^verbatim>\<open>TypeError\<close> when it is a name without \<^verbatim>\<open>_Tracker\<close> and a digit 1 to 4,
  \<^verbatim>\<open>ValueError\<close> when it is a name whose prefix differs from the prefix of the names before
  it.  No exception is raised exactly when all four names match and share one prefix, and
  \<open>track_name\<close> is then that prefix.
\<close>

theorem parse_mocha_files_validation:
  "(length selected \<noteq> 4 \<longrightarrow> parse_mocha_files_validate selected = Inl ValueError) \<and>
   (length selected = 4 \<longrightarrow>
      (parse_mocha_files_validate selected = Inr t \<longleftrightarrow>
         (\<forall>f \<in> set (tracker_file_names selected). mocha_name f = Some t)) \<and>
      (parse_mocha_files_validate selected = Inl TypeError \<longleftrightarrow>
         (\<exists>pre f post p. tracker_file_names selected = pre @ f # post \<and>
            mocha_name f = None \<and> (\<forall>g \<in> set pre. mocha_name g = Some p))) \<and>
      (parse_mocha_files_validate selected = Inl ValueError \<longleftrightarrow>
         (\<exists>pre f post p u. tracker_file_names selected = pre @ f # post \<and> pre \<noteq> [] \<and>
            mocha_name f = Some u \<and> u \<noteq> p \<and> (\<forall>g \<in> set pre. mocha_name g = Some p)))) \<and>
   (mocha_name file = None \<longleftrightarrow> (\<forall>d \<in> set ''1234''. \<not> sublist (''_Tracker'' @ [d]) file)) \<and>
   (mocha_name file = Some t \<longrightarrow> (\<exists>d \<in> set ''1234''. prefix (t @ ''_Tracker'' @ [d]) file))"
proof -
  let ?fs = "tracker_file_names selected"
  have four: "?fs \<noteq> []" if "length selected = 4"
    using that by (auto simp: tracker_file_names_def)
  have v: "parse_mocha_files_validate selected = scan_tracker_names [] [] ?fs"
    if "length selected = 4"
    using that by (simp add: parse_mocha_files_validate_def)
  have val_iff: "(\<exists>p. mocha_name (hd ?fs) = Some p \<and>
           first_failing (\<lambda>f. \<exists>u. mocha_name f = Some u \<and> u \<noteq> p) (\<lambda>f. mocha_name f = Some p) ?fs) \<longleftrightarrow>
         (\<exists>pre f post p u. ?fs = pre @ f # post \<and> pre \<noteq> [] \<and>
            mocha_name f = Some u \<and> u \<noteq> p \<and> (\<forall>g \<in> set pre. mocha_name g = Some p))"
    (is "?L \<longleftrightarrow> ?R")
  proof
    assume ?L
    then obtain p pre f post u where d: "mocha_name (hd ?fs) = Some p" "?fs = pre @ f # post"
      "mocha_name f = Some u" "u \<noteq> p" "\<forall>g \<in> set pre. mocha_name g = Some p"
      unfolding first_failing_def by blast
    have "pre \<noteq> []"
    proof
      assume "pre = []"
      with d(2) have "hd ?fs = f" by simp
      with d(1,3,4) show False by simp
    qed
    with d show ?R by blast
  next
    assume ?R
    then obtain pre f post p u where d: "?fs = pre @ f # post" "pre \<noteq> []"
      "mocha_name f = Some u" "u \<noteq> p" "\<forall>g \<in> set pre. mocha_name g = Some p"
      by blast
    from d(1,2) have "hd ?fs = hd pre" "hd pre \<in> set pre" by simp_all
    with d(5) have "mocha_name (hd ?fs) = Some p" by simp
    moreover from d have "first_failing (\<lambda>f. \<exists>u. mocha_name f = Some u \<and> u \<noteq> p)
        (\<lambda>f. mocha_name f = Some p) ?fs"
      unfolding first_failing_def by blast
    ultimately show ?L by blast
  qed
  have a: "length selected \<noteq> 4 \<longrightarrow> parse_mocha_files_validate selected = Inl ValueError"
    by (simp add: parse_mocha_files_validate_def)
  have b: "parse_mocha_files_validate selected = Inr t \<longleftrightarrow>
         (\<forall>f \<in> set ?fs. mocha_name f = Some t)" if "length selected = 4"
    using scan_tracker_names_start [OF four [OF that], of "[]" t] v [OF that] by simp
  have c: "parse_mocha_files_validate selected = Inl TypeError \<longleftrightarrow>
         (\<exists>pre f post p. ?fs = pre @ f # post \<and>
            mocha_name f = None \<and> (\<forall>g \<in> set pre. mocha_name g = Some p))"
    if "length selected = 4"
    using scan_tracker_names_start [OF four [OF that], of "[]" t TypeError] v [OF that]
    unfolding first_failing_def by auto
  have d: "parse_mocha_files_validate selected = Inl ValueError \<longleftrightarrow>
         (\<exists>pre f post p u. ?fs = pre @ f # post \<and> pre \<noteq> [] \<and>
            mocha_name f = Some u \<and> u \<noteq> p \<and> (\<forall>g \<in> set pre. mocha_name g = Some p))"
    if "length selected = 4"
    using scan_tracker_names_start [OF four [OF that], of "[]" t ValueError] v [OF that]
    unfolding val_iff [symmetric] by simp
  from a b c d mocha_name_None [of "file"] mocha_name_Some [of "file" t]
  show ?thesis by blast
qed

theorem parse_mocha_files_validation_witness:
  "parse_mocha_files_validate
     [''/t/x_Tracker1.ascii'', ''/t/x_Tracker2.ascii'', ''/t/x_Tracker3.ascii'',
      ''/t/x_Tracker4.ascii''] = Inr ''x'' \<and>
   parse_mocha_files_validate
     [''/t/x_Tracker1.ascii'', ''/t/foo.ascii'', ''/t/x_Tracker3.ascii'',
      ''/t/x_Tracker4.ascii''] = Inl TypeError \<and>
   parse_mocha_files_validate [''/t/x_Tracker1.ascii''] = Inl ValueError"
proof -
  let ?sel = "[''/t/x_Tracker1.ascii'', ''/t/x_Tracker2.ascii'', ''/t/x_Tracker3.ascii'',
      ''/t/x_Tracker4.ascii'']"
  let ?bad = "[''/t/x_Tracker1.ascii'', ''/t/foo.ascii'', ''/t/x_Tracker3.ascii'',
      ''/t/x_Tracker4.ascii'']"
  have "\<forall>f \<in> set (tracker_file_names ?sel). mocha_name f = Some ''x''"
    by (simp add: tracker_file_names_def mocha_name_def tracker_search_def tracker_at_def)
  moreover have "length ?sel = 4" by simp
  ultimately have 1: "parse_mocha_files_validate ?sel = Inr ''x''"
    using parse_mocha_files_validation [of ?sel "''x''" "''x''"] by blast
  have "tracker_file_names ?bad =
          [''x_Tracker1.ascii''] @ ''foo.ascii'' # [''x_Tracker3.ascii'', ''x_Tracker4.ascii''] \<and>
        mocha_name ''foo.ascii'' = None \<and>
        (\<forall>g \<in> set [''x_Tracker1.ascii'']. mocha_name g = Some ''x'')"
    by (simp add: tracker_file_names_def mocha_name_def tracker_search_def tracker_at_def)
  moreover have "length ?bad = 4" by simp
  ultimately have 2: "parse_mocha_files_validate ?bad = Inl TypeError"
    using parse_mocha_files_validation [of ?bad "''x''" "''x''"] by blast
  have "length [''/t/x_Tracker1.ascii''] \<noteq> 4" by simp
  then have 3: "parse_mocha_files_validate [''/t/x_Tracker1.ascii''] = Inl ValueError"
    using parse_mocha_files_validation [of "[''/t/x_Tracker1.ascii'']" "''x''" "''x''"] by blast
  from 1 2 3 show ?thesis by blast
qed

text \<open>
  The claim as written, a \<^verbatim>\<open>TypeError\<close> whenever some name has no match: the second name
  below already differs in its prefix, so the scan raises \<^verbatim>\<open>ValueError\<close> before it
  reaches the third name, the one without a match.
\<close>

theorem parse_mocha_files_validation_counterexample:
  "length [''/t/x_Tracker1.ascii'', ''/t/y_Tracker2.ascii'', ''/t/foo.ascii'',
      ''/t/x_Tracker4.ascii''] = 4 \<and>
   mocha_name ''foo.ascii'' = None \<and>
   tracker_file_names [''/t/x_Tracker1.ascii'', ''/t/y_Tracker2.ascii'', ''/t/foo.ascii'',
      ''/t/x_Tracker4.ascii''] ! 2 = ''foo.ascii'' \<and>
   parse_mocha_files_validate
     [''/t/x_Tracker1.ascii'', ''/t/y_Tracker2.ascii'', ''/t/foo.ascii'',
      ''/t/x_Tracker4.ascii''] = Inl ValueError"
  by (simp add: parse_mocha_files_validate_def tracker_file_names_def mocha_name_def
      tracker_search_def tracker_at_def)

subsection \<open>Reading the keyframes\<close>















subsection \<open>The perspective grid: the 2D mode\<close>



subsection \<open>The perspective grid: translating the corners\<close>







subsection \<open>The surface: the interpolation subtype\<close>



subsection \<open>The surface: the tracker attachments\<close>












subsection \<open>The order of the effects\<close>

lemmas run_defs = and_then_def emit_def done_with_def

lemma parse_mocha_files_run_eq:
  "parse_mocha_files_run ops h =
     (case parse_mocha_files_validate (host_selected_files h) of
        Inl e \<Rightarrow> ([FileBrowser, MessagePrint], Inl e)
      | Inr name \<Rightarrow>
          ([FileBrowser],
           parse_mocha_files ops (host_tracker_files h) (host_selected_files h)
             (init_track (host_start_frame h))))"
  by (simp add: parse_mocha_files_run_def run_defs split: sum.splits)





lemma parse_run_events:
  "fst (parse_mocha_files_run ops h) = [FileBrowser] \<or>
   fst (parse_mocha_files_run ops h) = [FileBrowser, MessagePrint]"
  by (simp add: parse_mocha_files_run_eq split: sum.splits)

lemma written_before_load_quiet:
  assumes "\<forall>ev \<in> set tr. (\<forall>p. ev \<noteq> LoadNodeSetup p)"
  shows "written_before_load w tr"
  using assms
proof (induction tr arbitrary: w)
  case Nil
  show ?case by simp
next
  case (Cons ev tr)
  then show ?case by (cases ev) simp_all
qed

lemma written_before_load_append_quiet:
  assumes "\<forall>ev \<in> set tr. (\<forall>p. ev \<noteq> LoadNodeSetup p) \<and> (\<forall>f t. ev \<noteq> WriteSetupFile f t)"
  shows "written_before_load w (tr @ rest) = written_before_load w rest"
  using assms
proof (induction tr)
  case Nil
  show ?case by simp
next
  case (Cons ev tr)
  then show ?case by (cases ev) simp_all
qed

lemma written_texts_append_quiet:
  assumes "\<forall>ev \<in> set tr. \<forall>f t. ev \<noteq> WriteSetupFile f t"
  shows "written_texts (tr @ rest) = written_texts rest"
  using assms
proof (induction tr)
  case Nil
  show ?case by simp
next
  case (Cons ev tr)
  then show ?case by (cases ev) simp_all
qed

lemma parse_run_quiet:
  "\<forall>ev \<in> set (fst (parse_mocha_files_run ops h)).
     (\<forall>p. ev \<noteq> LoadNodeSetup p) \<and> (\<forall>f t. ev \<noteq> WriteSetupFile f t)"
  using parse_run_events [of ops h] by auto






subsection \<open>Determinism\<close>







end
